theory Spec2Isabelle
  imports Main "HOL-Library.Word" "HOL-Library.Char_ord"
begin

unbundle bit_operations_syntax

section \<open>Model names: data model\<close>

text \<open>
  Go strings are byte sequences; they are modelled as \<open>string\<close> (a list of 8-bit
  \<open>char\<close>), so \<open>length\<close> is Go's \<open>len\<close> and \<open>s ! i\<close> is \<open>s[i]\<close>.
\<close>

definition MissingPart :: string where
  "MissingPart = ''!MISSING!''"

datatype partKind = kindHost | kindNamespace | kindModel | kindTag | kindDigest

record Name =
  Host :: string
  Namespace :: string
  Model :: string
  Tag :: string
  RawDigest :: string

text \<open>The zero value of the struct (\<open>var n Name\<close>).\<close>

definition zeroName :: Name where
  "zeroName = \<lparr>Host = [], Namespace = [], Model = [], Tag = [], RawDigest = []\<rparr>"

definition DefaultName :: Name where
  "DefaultName = \<lparr>Host = ''registry.ollama.ai'', Namespace = ''library'', Model = [],
     Tag = ''latest'', RawDigest = []\<rparr>"

section \<open>Library functions used by the package\<close>

text \<open>
  \<open>cmp.Or\<close> returns the first of its arguments that is not the zero value (here: the
  empty string), and the zero value when there is none.
\<close>

fun cmp_Or :: "string list \<Rightarrow> string" where
  "cmp_Or [] = []"
| "cmp_Or (v # vs) = (if v \<noteq> [] then v else cmp_Or vs)"

text \<open>
  \<open>strings.LastIndex s substr\<close> is the index of the last occurrence of \<open>substr\<close> in
  \<open>s\<close>, or \<open>-1\<close> when there is none. An occurrence further right wins over one at
  the head.
\<close>

fun LastIndex :: "string \<Rightarrow> string \<Rightarrow> int" where
  "LastIndex [] substr = (if substr = [] then 0 else -1)"
| "LastIndex (c # cs) substr =
     (let r = LastIndex cs substr
      in if r \<ge> 0 then r + 1
         else if take (length substr) (c # cs) = substr then 0 else -1)"

section \<open>Splitting\<close>

definition cutLast :: "string \<Rightarrow> string \<Rightarrow> string \<times> string \<times> bool" where
  "cutLast s sep =
     (let i = LastIndex s sep
      in if i \<ge> 0 then (take (nat i) s, drop (nat i + length sep) s, True)
         else (s, [], False))"

definition cutPromised :: "string \<Rightarrow> string \<Rightarrow> string \<times> string \<times> bool" where
  "cutPromised s sep =
     (case cutLast s sep of (before, after, ok) \<Rightarrow>
        if \<not> ok then (before, after, False)
        else (cmp_Or [before, MissingPart], cmp_Or [after, MissingPart], True))"

section \<open>Part validation\<close>

definition isAlphanumeric :: "char \<Rightarrow> bool" where
  "isAlphanumeric c \<longleftrightarrow>
     CHR ''A'' \<le> c \<and> c \<le> CHR ''Z'' \<or> CHR ''a'' \<le> c \<and> c \<le> CHR ''z'' \<or> CHR ''0'' \<le> c \<and> c \<le> CHR ''9''"

fun isValidLen :: "partKind \<Rightarrow> string \<Rightarrow> bool" where
  "isValidLen kindHost s = (length s \<ge> 1 \<and> length s \<le> 350)"
| "isValidLen kindTag s = (length s \<ge> 1 \<and> length s \<le> 80)"
| "isValidLen _ s = (length s \<ge> 2 \<and> length s \<le> 80)"

text \<open>
  \<open>for i := range s\<close> over a Go string visits the start index of every rune, not
  every byte: a byte below \<open>0x80\<close> is a rune of width one, any other byte is handed to
  the runtime's UTF-8 decoder, which answers with the index after the rune (width two to
  four for a well-formed encoding, width one otherwise). The rune value itself is
  discarded by the loop of \<open>isValidPart\<close>, so only the next index is modelled.
\<close>

definition decoderune :: "string \<Rightarrow> nat \<Rightarrow> nat" where
  "decoderune s k =
     (if k \<ge> length s then k + 1
      else
        let t = drop k s;
            b = (\<lambda>i. (of_char (t ! i) :: nat));
            cont = (\<lambda>i. 0x80 \<le> b i \<and> b i \<le> 0xBF);
            r2 = (b 0 mod 32) * 64 + b 1 mod 64;
            r3 = (b 0 mod 16) * 4096 + (b 1 mod 64) * 64 + b 2 mod 64;
            r4 = (b 0 mod 8) * 262144 + (b 1 mod 64) * 4096 + (b 2 mod 64) * 64 + b 3 mod 64
        in if 0xC0 \<le> b 0 \<and> b 0 < 0xE0 then
             (if length t > 1 \<and> cont 1 \<and> 0x7F < r2 then k + 2 else k + 1)
           else if 0xE0 \<le> b 0 \<and> b 0 < 0xF0 then
             (if length t > 2 \<and> cont 1 \<and> cont 2 \<and> 0x7FF < r3 \<and> \<not> (0xD800 \<le> r3 \<and> r3 \<le> 0xDFFF)
              then k + 3 else k + 1)
           else if 0xF0 \<le> b 0 \<and> b 0 < 0xF8 then
             (if length t > 3 \<and> cont 1 \<and> cont 2 \<and> cont 3 \<and> 0xFFFF < r4 \<and> r4 \<le> 0x10FFFF
              then k + 4 else k + 1)
           else k + 1)"

definition rangeNext :: "string \<Rightarrow> nat \<Rightarrow> nat" where
  "rangeNext s i = (if (of_char (s ! i) :: nat) < 0x80 then i + 1 else decoderune s i)"

lemma decoderune_gt: "k < decoderune s k"
  by (simp add: decoderune_def Let_def)

lemma rangeNext_gt: "i < rangeNext s i"
  by (simp add: rangeNext_def decoderune_gt)

lemma rangeNext_less: "\<not> length s \<le> i \<Longrightarrow> length s - rangeNext s i < length s - i"
  using rangeNext_gt [of i s] by arith

lemma rangeNext_less0: "s \<noteq> [] \<Longrightarrow> length s - rangeNext s 0 < length s"
  using rangeNext_gt [of 0 s] by (cases s) auto

function isValidPart_from :: "partKind \<Rightarrow> string \<Rightarrow> nat \<Rightarrow> bool" where
  "isValidPart_from kind s i =
     (if i \<ge> length s then True
      else if i = 0 then
        (if \<not> isAlphanumeric (s ! i) then False
         else isValidPart_from kind s (rangeNext s i))
      else if s ! i = CHR ''_'' \<or> s ! i = CHR ''-'' then
        isValidPart_from kind s (rangeNext s i)
      else if s ! i = CHR ''.'' then
        (if kind = kindNamespace then False
         else isValidPart_from kind s (rangeNext s i))
      else if s ! i = CHR '':'' then
        (if kind \<noteq> kindHost then False
         else isValidPart_from kind s (rangeNext s i))
      else
        (if \<not> isAlphanumeric (s ! i) then False
         else isValidPart_from kind s (rangeNext s i)))"
  by pat_completeness auto
termination
  by (relation "measure (\<lambda>(kind, s, i). length s - i)") (auto simp: rangeNext_less rangeNext_less0)

declare isValidPart_from.simps [simp del]

definition isValidPart :: "partKind \<Rightarrow> string \<Rightarrow> bool" where
  "isValidPart kind s = (if \<not> isValidLen kind s then False else isValidPart_from kind s 0)"

text \<open>
  What the loop body of \<open>isValidPart\<close> accepts at index \<open>i\<close>; used to state the
  loop's result byte by byte.
\<close>

definition okByte :: "partKind \<Rightarrow> nat \<Rightarrow> char \<Rightarrow> bool" where
  "okByte kind i c \<longleftrightarrow>
     (if i = 0 then isAlphanumeric c
      else c = CHR ''_'' \<or> c = CHR ''-'' \<or> (c = CHR ''.'' \<and> kind \<noteq> kindNamespace)
           \<or> (c = CHR '':'' \<and> kind = kindHost) \<or> isAlphanumeric c)"

section \<open>Operations on names\<close>

definition IsValidShort :: "string \<Rightarrow> string \<Rightarrow> bool" where
  "IsValidShort namespace model \<longleftrightarrow>
     isValidPart kindNamespace namespace \<and> isValidPart kindModel model"

definition Merge :: "Name \<Rightarrow> Name \<Rightarrow> Name" where
  "Merge n other =
     (let n = n\<lparr>Host := cmp_Or [Host n, Host other]\<rparr>;
          n = n\<lparr>Namespace := cmp_Or [Namespace n, Namespace other]\<rparr>;
          n = n\<lparr>Tag := cmp_Or [Tag n, Tag other]\<rparr>
      in n)"

definition ParseNameNoDefaults :: "string \<Rightarrow> Name" where
  "ParseNameNoDefaults s =
     (let n = zeroName in
      case cutLast s ''@'' of (s, rawDigest, promised) \<Rightarrow>
      let n = n\<lparr>RawDigest := rawDigest\<rparr>;
          n = (if promised \<and> RawDigest n = [] then n\<lparr>RawDigest := MissingPart\<rparr> else n)
      in
      case cutPromised s '':'' of (s, tag, _) \<Rightarrow>
      let n = n\<lparr>Tag := tag\<rparr> in
      case cutPromised s ''/'' of (s, model, promised) \<Rightarrow>
      let n = n\<lparr>Model := model\<rparr> in
      if \<not> promised then n\<lparr>Model := s\<rparr>
      else
        case cutPromised s ''/'' of (s, namespace, promised) \<Rightarrow>
        let n = n\<lparr>Namespace := namespace\<rparr> in
        if \<not> promised then n\<lparr>Namespace := s\<rparr>
        else n\<lparr>Host := s\<rparr>)"

definition ParseName :: "string \<Rightarrow> Name" where
  "ParseName s = Merge (ParseNameNoDefaults s) DefaultName"

text \<open>
  The loop of \<open>IsValid\<close> runs over the five fields in declaration order; the index
  \<open>i\<close> converted to a \<open>partKind\<close> is the \<open>i\<close>-th kind of the enumeration.
\<close>

definition partKinds :: "partKind list" where
  "partKinds = [kindHost, kindNamespace, kindModel, kindTag, kindDigest]"

fun allPartsValid :: "(partKind \<times> string) list \<Rightarrow> bool" where
  "allPartsValid [] = True"
| "allPartsValid ((kind, part) # rest) =
     (if part \<noteq> [] \<and> \<not> isValidPart kind part then False else allPartsValid rest)"

definition Name_IsValid :: "Name \<Rightarrow> bool" where
  "Name_IsValid n =
     (if Model n = [] \<and> RawDigest n = [] then False
      else allPartsValid (zip partKinds [Host n, Namespace n, Model n, Tag n, RawDigest n]))"

definition Name_String :: "Name \<Rightarrow> string" where
  "Name_String n =
     (let b = [];
          b = (if Host n \<noteq> [] then b @ Host n @ ''/'' else b);
          b = (if Namespace n \<noteq> [] then b @ Namespace n @ ''/'' else b);
          b = b @ Model n;
          b = (if Tag n \<noteq> [] then b @ '':'' @ Tag n else b);
          b = (if RawDigest n \<noteq> [] then b @ ''@'' @ RawDigest n else b)
      in b)"

section \<open>Digests\<close>

type_synonym byte = "8 word"

text \<open>
  \<open>DigestType\<close> is an integer type whose only named value is \<open>DigestTypeSHA256 = 1\<close>;
  the zero value \<open>0\<close> is the type of the zero \<open>Digest\<close>.
\<close>

type_synonym DigestType = int

definition DigestTypeSHA256 :: DigestType where
  "DigestTypeSHA256 = 1"

definition DigestType_String :: "DigestType \<Rightarrow> string" where
  "DigestType_String t = (if t = DigestTypeSHA256 then ''sha256'' else ''unknown'')"

text \<open>The array \<open>[32]byte\<close> is a list of bytes of length 32.\<close>

record Digest =
  Type :: DigestType
  Hash :: "byte list"

definition zeroDigest :: Digest where
  "zeroDigest = \<lparr>Type = 0, Hash = replicate 32 0\<rparr>"

definition Digest_IsValid :: "Digest \<Rightarrow> bool" where
  "Digest_IsValid d =
     (if Type d \<noteq> DigestTypeSHA256 then False else Hash d \<noteq> replicate 32 0)"

subsection \<open>The hexadecimal codec of the standard library\<close>

definition hextable :: string where
  "hextable = ''0123456789abcdef''"

text \<open>
  \<open>reverseHexTable\<close> maps a byte to the value of the hexadecimal digit it denotes, in
  either case, and to \<open>0xff\<close> when it denotes none.
\<close>

definition reverseHexTable :: "char \<Rightarrow> byte" where
  "reverseHexTable c =
     (if CHR ''0'' \<le> c \<and> c \<le> CHR ''9'' then of_char c - of_char CHR ''0''
      else if CHR ''a'' \<le> c \<and> c \<le> CHR ''f'' then of_char c - of_char CHR ''a'' + 10
      else if CHR ''A'' \<le> c \<and> c \<le> CHR ''F'' then of_char c - of_char CHR ''A'' + 10
      else 0xff)"

fun EncodeToString :: "byte list \<Rightarrow> string" where
  "EncodeToString [] = []"
| "EncodeToString (v # vs) =
     hextable ! unat (drop_bit 4 v) # hextable ! unat (v AND 0x0f) # EncodeToString vs"

datatype hex_error = InvalidByteError char | ErrLength

text \<open>A write past the end of the destination slice is a run-time panic.\<close>

datatype panic = IndexOutOfRange nat nat

text \<open>
  \<open>hex.Decode dst src\<close> decodes pairs of digits into \<open>dst\<close> from index 0 on. It stops
  with an error at the first byte that is no digit, and reports an odd length after the
  last full pair. It never checks the length of \<open>dst\<close>: the store \<open>dst[i] = ...\<close> does.
  The result is the destination as left behind, the number of bytes written, and the error.
\<close>

function Decode_from :: "byte list \<Rightarrow> string \<Rightarrow> nat \<Rightarrow> nat \<Rightarrow> panic + (byte list \<times> nat \<times> hex_error option)" where
  "Decode_from dst src i j =
     (if j < length src then
        (let p = src ! (j - 1); q = src ! j;
             a = reverseHexTable p; b = reverseHexTable q
         in if a > 0x0f then Inr (dst, i, Some (InvalidByteError p))
            else if b > 0x0f then Inr (dst, i, Some (InvalidByteError q))
            else if i \<ge> length dst then Inl (IndexOutOfRange i (length dst))
            else Decode_from (dst[i := push_bit 4 a OR b]) src (i + 1) (j + 2))
      else if length src mod 2 = 1 then
        (if reverseHexTable (src ! (j - 1)) > 0x0f
         then Inr (dst, i, Some (InvalidByteError (src ! (j - 1))))
         else Inr (dst, i, Some ErrLength))
      else Inr (dst, i, None))"
  by pat_completeness auto
termination
  by (relation "measure (\<lambda>(dst, src, i, j). Suc (length src) - j)") auto

declare Decode_from.simps [simp del]

definition Decode :: "byte list \<Rightarrow> string \<Rightarrow> panic + (byte list \<times> nat \<times> hex_error option)" where
  "Decode dst src = Decode_from dst src 0 1"

definition Digest_String :: "Digest \<Rightarrow> string" where
  "Digest_String d = DigestType_String (Type d) @ ''-'' @ EncodeToString (Hash d)"

definition ParseDigest :: "string \<Rightarrow> panic + Digest" where
  "ParseDigest s =
     (case cutLast s '':'' of (typ, hash, ok) \<Rightarrow>
      case (if \<not> ok then cutLast s ''-'' else (typ, hash, ok)) of (typ, hash, ok) \<Rightarrow>
      if \<not> ok then Inr zeroDigest
      else if typ \<noteq> ''sha256'' then Inr zeroDigest
      else
        case Decode (Hash zeroDigest) hash of
          Inl p \<Rightarrow> Inl p
        | Inr (h, n, err) \<Rightarrow>
            if err \<noteq> None \<or> n \<noteq> 32 then Inr zeroDigest
            else Inr \<lparr>Type = DigestTypeSHA256, Hash = h\<rparr>)"

section \<open>Auxiliary notions for the proofs\<close>

text \<open>
  The part of \<open>ParseNameNoDefaults\<close> after the digest and the tag have been cut off,
  the text \<open>String\<close> writes for host, namespace and model, and the validity of these
  three fields.
\<close>

definition parsePath :: "Name \<Rightarrow> string \<Rightarrow> Name" where
  "parsePath n s =
     (case cutPromised s ''/'' of (s, model, promised) \<Rightarrow>
      let n = n\<lparr>Model := model\<rparr> in
      if \<not> promised then n\<lparr>Model := s\<rparr>
      else
        case cutPromised s ''/'' of (s, namespace, promised) \<Rightarrow>
        let n = n\<lparr>Namespace := namespace\<rparr> in
        if \<not> promised then n\<lparr>Namespace := s\<rparr>
        else n\<lparr>Host := s\<rparr>)"

definition pathText :: "Name \<Rightarrow> string" where
  "pathText n =
     (if Host n \<noteq> [] then Host n @ ''/'' else []) @
     (if Namespace n \<noteq> [] then Namespace n @ ''/'' else []) @ Model n"

definition pathValid :: "Name \<Rightarrow> bool" where
  "pathValid n \<longleftrightarrow>
     (Host n \<noteq> [] \<longrightarrow> isValidPart kindHost (Host n)) \<and>
     (Namespace n \<noteq> [] \<longrightarrow> isValidPart kindNamespace (Namespace n)) \<and>
     (Model n \<noteq> [] \<longrightarrow> isValidPart kindModel (Model n))"

text \<open>
  \<open>promisedEmpty s sep\<close>: the separator occurs in \<open>s\<close> and nothing stands on one side
  of its last occurrence, which is when \<open>cutPromised\<close> puts \<open>MissingPart\<close> there.
  \<open>missingPromised s\<close> follows the cuts of \<open>ParseNameNoDefaults\<close>: nothing after the
  last \<open>@\<close>, or an empty side at the colon or at one of the slashes the parser cuts at.
\<close>

definition promisedEmpty :: "string \<Rightarrow> string \<Rightarrow> bool" where
  "promisedEmpty s sep =
     (case cutLast s sep of (l, r, ok) \<Rightarrow> ok \<and> (l = [] \<or> r = []))"

definition missingPromised :: "string \<Rightarrow> bool" where
  "missingPromised s =
     (case cutLast s ''@'' of (s0, rawDigest, promised) \<Rightarrow>
        (promised \<and> rawDigest = []) \<or> promisedEmpty s0 '':'' \<or>
        (case cutPromised s0 '':'' of (s1, _, _) \<Rightarrow>
           promisedEmpty s1 ''/'' \<or>
           (case cutPromised s1 ''/'' of (s2, _, promised) \<Rightarrow>
              promised \<and> promisedEmpty s2 ''/'')))"

definition hasMissingPart :: "Name \<Rightarrow> bool" where
  "hasMissingPart n \<longleftrightarrow>
     Host n = MissingPart \<or> Namespace n = MissingPart \<or> Model n = MissingPart \<or>
     Tag n = MissingPart \<or> RawDigest n = MissingPart"

text \<open>The byte that the \<open>k\<close>-th pair of hexadecimal digits of \<open>src\<close> denotes.\<close>

definition hexByte :: "string \<Rightarrow> nat \<Rightarrow> byte" where
  "hexByte src k = push_bit 4 (reverseHexTable (src ! (2 * k))) OR reverseHexTable (src ! Suc (2 * k))"

section \<open>Splitting at the last separator\<close>

lemma LastIndex_ge: "- 1 \<le> LastIndex s sub"
  by (induction s) (auto simp: Let_def)

lemma LastIndex_notin: "c \<notin> set s \<Longrightarrow> LastIndex s [c] = - 1"
  by (induction s) (auto simp: Let_def)

lemma LastIndex_last: "c \<notin> set b \<Longrightarrow> LastIndex (a @ c # b) [c] = int (length a)"
  by (induction a) (auto simp: Let_def LastIndex_notin)

lemma cutLast_notin: "c \<notin> set s \<Longrightarrow> cutLast s [c] = (s, [], False)"
  by (simp add: cutLast_def LastIndex_notin)

lemma cutLast_last: "c \<notin> set b \<Longrightarrow> cutLast (a @ c # b) [c] = (a, b, True)"
  by (simp add: cutLast_def LastIndex_last)

lemma cutLast_cases:
  obtains (absent) "c \<notin> set s" "cutLast s [c] = (s, [], False)"
  | (found) a b where "s = a @ c # b" "c \<notin> set b" "cutLast s [c] = (a, b, True)"
proof (cases "c \<in> set s")
  case False
  then show ?thesis using absent cutLast_notin by blast
next
  case True
  then obtain a b where "s = a @ c # b" "c \<notin> set b"
    using split_list_last by fastforce
  then show ?thesis using found cutLast_last by blast
qed

lemma cutPromised_cases:
  obtains (absent) "c \<notin> set s" "cutPromised s [c] = (s, [], False)"
  | (found) a b where "s = a @ c # b" "c \<notin> set b"
      "cutPromised s [c] = (if a = [] then MissingPart else a, if b = [] then MissingPart else b, True)"
proof (cases rule: cutLast_cases [of c s])
  case absent
  then show ?thesis using that(1) by (simp add: cutPromised_def)
next
  case (found a b)
  then show ?thesis using that(2) [of a b] by (simp add: cutPromised_def)
qed

section \<open>The validation loop, byte by byte\<close>

text \<open>
  Every byte the loop accepts is below \<open>0x80\<close>, so the loop only ever advances by
  one: the runes it steps over are single bytes, and it visits every byte up to the
  first one it rejects.
\<close>

lemma isAlphanumeric_ascii: "isAlphanumeric c \<Longrightarrow> (of_char c :: nat) < 0x80"
  by (auto simp: isAlphanumeric_def less_eq_char_def)

lemma not_alnum_punct [simp]:
  "\<not> isAlphanumeric CHR ''_''" "\<not> isAlphanumeric CHR ''-''"
  "\<not> isAlphanumeric CHR ''.''" "\<not> isAlphanumeric CHR '':''"
  "\<not> isAlphanumeric CHR ''/''" "\<not> isAlphanumeric CHR ''@''" "\<not> isAlphanumeric CHR ''!''"
  by (simp_all add: isAlphanumeric_def less_eq_char_def)

lemma okByte_next: "okByte kind i c \<Longrightarrow> s ! i = c \<Longrightarrow> rangeNext s i = Suc i"
  unfolding okByte_def rangeNext_def
  by (auto dest: isAlphanumeric_ascii split: if_splits)

lemma isValidPart_from_unfold:
  "isValidPart_from kind s i =
     (if i \<ge> length s then True
      else if \<not> okByte kind i (s ! i) then False
      else isValidPart_from kind s (Suc i))"
proof (cases "okByte kind i (s ! i)")
  case True
  have "isValidPart_from kind s i =
      (if i \<ge> length s then True else isValidPart_from kind s (rangeNext s i))"
    using True by (subst isValidPart_from.simps) (auto simp: okByte_def split: if_splits)
  also have "rangeNext s i = Suc i" using True by (simp add: okByte_next)
  finally show ?thesis using True by simp
next
  case False
  then have "isValidPart_from kind s i = (if i \<ge> length s then True else False)"
    by (subst isValidPart_from.simps) (auto simp: okByte_def split: if_splits)
  then show ?thesis using False by simp
qed

lemma isValidPart_from_iff:
  "isValidPart_from kind s i \<longleftrightarrow> (\<forall>j. i \<le> j \<and> j < length s \<longrightarrow> okByte kind j (s ! j))"
proof (induction "length s - i" arbitrary: i)
  case 0
  then show ?case by (subst isValidPart_from_unfold) auto
next
  case (Suc n)
  then have lt: "i < length s" and n: "n = length s - Suc i" by arith+
  have ih: "isValidPart_from kind s (Suc i) \<longleftrightarrow>
      (\<forall>j. Suc i \<le> j \<and> j < length s \<longrightarrow> okByte kind j (s ! j))"
    using Suc.hyps(1) [OF n] .
  have split: "(\<forall>j. i \<le> j \<and> j < length s \<longrightarrow> okByte kind j (s ! j)) \<longleftrightarrow>
      okByte kind i (s ! i) \<and> (\<forall>j. Suc i \<le> j \<and> j < length s \<longrightarrow> okByte kind j (s ! j))"
    by (metis Suc_leI le_eq_less_or_eq Suc_leD lt)
  show ?case
    using lt by (subst isValidPart_from_unfold) (simp add: ih split)
qed

lemma isValidPart_iff:
  "isValidPart kind s \<longleftrightarrow>
     isValidLen kind s \<and> (\<forall>j < length s. okByte kind j (s ! j))"
  by (simp add: isValidPart_def isValidPart_from_iff)

lemma okByte_all_iff:
  "(\<forall>j < length (c # cs). okByte kind j ((c # cs) ! j)) \<longleftrightarrow>
     isAlphanumeric c \<and> (\<forall>x \<in> set cs. okByte kind (Suc 0) x)"
proof -
  have "(\<forall>j < length (c # cs). okByte kind j ((c # cs) ! j)) \<longleftrightarrow>
      okByte kind 0 c \<and> (\<forall>j < length cs. okByte kind (Suc j) (cs ! j))"
    by (simp add: All_less_Suc2)
  also have "\<dots> \<longleftrightarrow> isAlphanumeric c \<and> (\<forall>x \<in> set cs. okByte kind (Suc 0) x)"
    by (simp add: okByte_def all_set_conv_all_nth)
  finally show ?thesis .
qed

lemma okByte_rest:
  "okByte kind (Suc 0) x \<longleftrightarrow>
     isAlphanumeric x \<or> x = CHR ''_'' \<or> x = CHR ''-''
     \<or> (x = CHR ''.'' \<and> kind \<noteq> kindNamespace) \<or> (x = CHR '':'' \<and> kind = kindHost)"
  unfolding okByte_def by auto

lemma isValidLen_bounds:
  "isValidLen kind s \<longleftrightarrow>
     (case kind of
        kindHost \<Rightarrow> 1 \<le> length s \<and> length s \<le> 350
      | kindTag \<Rightarrow> 1 \<le> length s \<and> length s \<le> 80
      | _ \<Rightarrow> 2 \<le> length s \<and> length s \<le> 80)"
  by (cases kind) simp_all

lemma isAlphanumeric_iff:
  "isAlphanumeric c \<longleftrightarrow>
     c \<in> set ''ABCDEFGHIJKLMNOPQRSTUVWXYZabcdefghijklmnopqrstuvwxyz0123456789''"
proof (cases c)
  case (Char b0 b1 b2 b3 b4 b5 b6 b7)
  show ?thesis
    unfolding Char isAlphanumeric_def less_eq_char_def
    by (cases b0; cases b1; cases b2; cases b3; cases b4; cases b5; cases b6; cases b7; simp)
qed

section \<open>Part validation and name validity\<close>

text \<open>
  Claim C4. For every part kind and string, \<open>isValidPart\<close> holds exactly when the
  length is within the bounds of the kind (host 1 to 350, tag 1 to 80, namespace, model
  and digest 2 to 80), the first byte is an ASCII letter or digit, and every later byte
  is an ASCII letter, a digit, \<open>_\<close> or \<open>-\<close>, or is \<open>.\<close> in a part that is no
  namespace, or is \<open>:\<close> in a host.
\<close>

theorem isValidPart_spec:
  "isValidPart kind s \<longleftrightarrow>
     (case kind of
        kindHost \<Rightarrow> 1 \<le> length s \<and> length s \<le> 350
      | kindTag \<Rightarrow> 1 \<le> length s \<and> length s \<le> 80
      | _ \<Rightarrow> 2 \<le> length s \<and> length s \<le> 80) \<and>
     (case s of
        [] \<Rightarrow> False
      | c # cs \<Rightarrow>
          c \<in> set ''ABCDEFGHIJKLMNOPQRSTUVWXYZabcdefghijklmnopqrstuvwxyz0123456789'' \<and>
          (\<forall>x \<in> set cs.
             x \<in> set ''ABCDEFGHIJKLMNOPQRSTUVWXYZabcdefghijklmnopqrstuvwxyz0123456789''
             \<or> x = CHR ''_'' \<or> x = CHR ''-''
             \<or> (x = CHR ''.'' \<and> kind \<noteq> kindNamespace)
             \<or> (x = CHR '':'' \<and> kind = kindHost)))"
proof (cases s)
  case Nil
  then show ?thesis by (cases kind) (simp_all add: isValidPart_def)
next
  case (Cons c cs)
  have "isValidPart kind (c # cs) \<longleftrightarrow> isValidLen kind (c # cs) \<and>
      isAlphanumeric c \<and> (\<forall>x \<in> set cs. okByte kind (Suc 0) x)"
    unfolding isValidPart_iff okByte_all_iff ..
  then show ?thesis
    unfolding Cons okByte_rest isValidLen_bounds isAlphanumeric_iff by simp
qed

theorem isValidPart_spec_witness:
  "isValidPart kindHost ''a:123'' \<and> \<not> isValidPart kindNamespace ''a.''"
  using isValidPart_spec [of kindHost "''a:123''"] isValidPart_spec [of kindNamespace "''a.''"]
  by simp

lemma Name_IsValid_iff:
  "Name_IsValid n \<longleftrightarrow>
     (Model n \<noteq> [] \<or> RawDigest n \<noteq> []) \<and>
     (Host n \<noteq> [] \<longrightarrow> isValidPart kindHost (Host n)) \<and>
     (Namespace n \<noteq> [] \<longrightarrow> isValidPart kindNamespace (Namespace n)) \<and>
     (Model n \<noteq> [] \<longrightarrow> isValidPart kindModel (Model n)) \<and>
     (Tag n \<noteq> [] \<longrightarrow> isValidPart kindTag (Tag n)) \<and>
     (RawDigest n \<noteq> [] \<longrightarrow> isValidPart kindDigest (RawDigest n))"
  unfolding Name_IsValid_def partKinds_def
  by (simp only: zip_Cons_Cons zip_Nil allPartsValid.simps if_bool_eq_conj) blast

text \<open>
  Claim C3. A name is valid exactly when its model or its raw digest is non-empty and
  each of the five fields that is non-empty passes the part validator for the kind of
  its position: host, namespace, model, tag, digest.
\<close>

theorem Name_IsValid_spec:
  "Name_IsValid n \<longleftrightarrow>
     (Model n \<noteq> [] \<or> RawDigest n \<noteq> []) \<and>
     (Host n \<noteq> [] \<longrightarrow> isValidPart kindHost (Host n)) \<and>
     (Namespace n \<noteq> [] \<longrightarrow> isValidPart kindNamespace (Namespace n)) \<and>
     (Model n \<noteq> [] \<longrightarrow> isValidPart kindModel (Model n)) \<and>
     (Tag n \<noteq> [] \<longrightarrow> isValidPart kindTag (Tag n)) \<and>
     (RawDigest n \<noteq> [] \<longrightarrow> isValidPart kindDigest (RawDigest n))"
  by (rule Name_IsValid_iff)

theorem Name_IsValid_spec_witness:
  "isValidPart kindHost ''h'' \<and> isValidPart kindNamespace ''nn'' \<and>
   isValidPart kindModel ''mm'' \<and> isValidPart kindTag ''t'' \<and> isValidPart kindDigest ''dd'' \<and>
   Name_IsValid \<lparr>Host = ''h'', Namespace = ''nn'', Model = ''mm'', Tag = ''t'', RawDigest = ''dd''\<rparr>"
proof -
  have parts: "isValidPart kindHost ''h''" "isValidPart kindNamespace ''nn''"
    "isValidPart kindModel ''mm''" "isValidPart kindTag ''t''" "isValidPart kindDigest ''dd''"
    by code_simp+
  show ?thesis
    using parts
      Name_IsValid_spec [of "\<lparr>Host = ''h'', Namespace = ''nn'', Model = ''mm'', Tag = ''t'', RawDigest = ''dd''\<rparr>"]
    by simp
qed

text \<open>
  Claim C10. \<open>IsValidShort namespace model\<close> is documented as equivalent to the
  validity of the name built from only that namespace and model. It demands that both
  parts pass the validator, while \<open>IsValid\<close> skips an empty namespace: the two differ
  on the empty namespace with the model \<open>mm\<close>.
\<close>

theorem IsValidShort_differs:
  "\<not> IsValidShort [] ''mm'' \<and>
   Name_IsValid \<lparr>Host = [], Namespace = [], Model = ''mm'', Tag = [], RawDigest = []\<rparr>"
  by code_simp

section \<open>Merging with defaults\<close>

text \<open>
  Claim C8. \<open>Merge n d\<close> takes host, namespace and tag from \<open>n\<close> where they are
  non-empty and from the default \<open>d\<close> otherwise, and leaves model and raw digest as
  they are in \<open>n\<close>. Both names are passed by value and the result is a new value, so the
  default is not changed.
\<close>

theorem Merge_spec:
  "Host (Merge n d) = (if Host n \<noteq> [] then Host n else Host d) \<and>
   Namespace (Merge n d) = (if Namespace n \<noteq> [] then Namespace n else Namespace d) \<and>
   Tag (Merge n d) = (if Tag n \<noteq> [] then Tag n else Tag d) \<and>
   Model (Merge n d) = Model n \<and>
   RawDigest (Merge n d) = RawDigest n"
  by (simp add: Merge_def)

section \<open>Formatting and parsing again\<close>

text \<open>
  Claim C2. A valid name is said to be reproduced by parsing its string. The name with
  host \<open>h:1\<close>, namespace \<open>nn\<close> and model \<open>mm\<close> is valid and formats to
  \<open>h:1/nn/mm\<close>; the parser cuts that string at its last colon, inside the host, and
  returns the model \<open>h\<close> with the tag \<open>1/nn/mm\<close>.
\<close>

theorem String_not_reparsed:
  "Name_IsValid \<lparr>Host = ''h:1'', Namespace = ''nn'', Model = ''mm'', Tag = [], RawDigest = []\<rparr> \<and>
   Name_String \<lparr>Host = ''h:1'', Namespace = ''nn'', Model = ''mm'', Tag = [], RawDigest = []\<rparr>
     = ''h:1/nn/mm'' \<and>
   ParseNameNoDefaults ''h:1/nn/mm'' =
     \<lparr>Host = [], Namespace = [], Model = ''h'', Tag = ''1/nn/mm'', RawDigest = []\<rparr>"
  by code_simp

section \<open>Parsing digests\<close>

text \<open>
  Claim C5. \<open>ParseDigest\<close> is said to return a digest for every input. The hash
  segment is decoded into the 32 bytes of the digest before its length is looked at, so
  a segment that starts with 33 pairs of hexadecimal digits makes the decoder store at
  index 32 of a 32-byte array.
\<close>

theorem ParseDigest_panics:
  "ParseDigest (''sha256:'' @ replicate 66 CHR ''0'') = Inl (IndexOutOfRange 32 32)"
  by code_simp

theorem ParseDigest_panics_witness:
  "isl (ParseDigest (''sha256:'' @ replicate 66 CHR ''0'')) \<and>
   (\<forall>d. ParseDigest (''sha256:'' @ replicate 66 CHR ''0'') \<noteq> Inr d)"
  using ParseDigest_panics by simp

section \<open>Parsing and formatting: the round trip\<close>

lemma ParseNameNoDefaults_parsePath:
  "ParseNameNoDefaults s =
     (case cutLast s ''@'' of (s0, dg, p) \<Rightarrow>
      case cutPromised s0 '':'' of (s1, tag, _) \<Rightarrow>
        parsePath (zeroName\<lparr>RawDigest := (if p \<and> dg = [] then MissingPart else dg), Tag := tag\<rparr>) s1)"
  by (simp add: ParseNameNoDefaults_def parsePath_def Let_def split: prod.splits)

lemma Name_String_pathText:
  "Name_String n = pathText n @ (if Tag n \<noteq> [] then '':'' @ Tag n else [])
     @ (if RawDigest n \<noteq> [] then ''@'' @ RawDigest n else [])"
  by (simp add: Name_String_def pathText_def)

lemma isValidPart_Nil [simp]: "\<not> isValidPart kind []"
  by (cases kind) (simp_all add: isValidPart_def)

lemma isValidPart_Cons:
  "isValidPart kind (c # cs) \<longleftrightarrow>
     isValidLen kind (c # cs) \<and> isAlphanumeric c \<and> (\<forall>x \<in> set cs. okByte kind (Suc 0) x)"
  unfolding isValidPart_iff okByte_all_iff ..

lemma MissingPart_invalid [simp]: "\<not> isValidPart kind MissingPart"
  by (simp add: MissingPart_def isValidPart_Cons)

lemma MissingPart_facts [simp]:
  "MissingPart \<noteq> []" "[] \<noteq> MissingPart" "CHR ''/'' \<notin> set MissingPart" "CHR '':'' \<notin> set MissingPart"
  "CHR ''@'' \<notin> set MissingPart"
  by (simp_all add: MissingPart_def)

lemma cutPromised_absent: "c \<notin> set s \<Longrightarrow> cutPromised s [c] = (s, [], False)"
  by (simp add: cutPromised_def cutLast_notin)

lemma cutPromised_found:
  "c \<notin> set b \<Longrightarrow> cutPromised (a @ c # b) [c] =
     (if a = [] then MissingPart else a, if b = [] then MissingPart else b, True)"
  by (simp add: cutPromised_def cutLast_last)

lemma parsePath_keeps [simp]:
  "RawDigest (parsePath n s) = RawDigest n" "Tag (parsePath n s) = Tag n"
  by (simp_all add: parsePath_def Let_def split: prod.splits)

lemma parsePath_Missing:
  "parsePath n MissingPart = n\<lparr>Model := MissingPart\<rparr>"
  by (simp add: parsePath_def cutPromised_absent)

lemma parsePath_text:
  assumes v: "pathValid (parsePath n s)" and n: "Host n = []" "Namespace n = []"
  shows "pathText (parsePath n s) = s"
proof (cases rule: cutPromised_cases [of "CHR ''/''" s])
  case absent
  then show ?thesis using n by (simp add: parsePath_def pathText_def)
next
  case (found a b)
  note modelcut = found
  have b: "b \<noteq> []"
  proof
    assume "b = []"
    then have "Model (parsePath n s) = MissingPart"
      using modelcut(3) by (simp add: parsePath_def Let_def split: prod.splits)
    then show False using v by (simp add: pathValid_def)
  qed
  have a: "a \<noteq> []"
  proof
    assume "a = []"
    then have "Namespace (parsePath n s) = MissingPart"
      using modelcut(3) by (simp add: parsePath_def Let_def cutPromised_absent)
    then show False using v by (simp add: pathValid_def)
  qed
  have cut1: "cutPromised s ''/'' = (a, b, True)"
    using modelcut(3) a b by simp
  show ?thesis
  proof (cases rule: cutPromised_cases [of "CHR ''/''" a])
    case absent
    then have "parsePath n s = n\<lparr>Model := b, Namespace := a\<rparr>"
      using cut1 by (simp add: parsePath_def)
    then show ?thesis using n a b modelcut(1) by (simp add: pathText_def)
  next
    case (found a' b')
    have eq: "parsePath n s = n\<lparr>Model := b, Namespace := (if b' = [] then MissingPart else b'),
        Host := (if a' = [] then MissingPart else a')\<rparr>"
      using cut1 found(3) by (simp add: parsePath_def)
    have b': "b' \<noteq> []" using v unfolding eq pathValid_def by auto
    have a': "a' \<noteq> []" using v unfolding eq pathValid_def by auto
    show ?thesis unfolding eq using a' b' b modelcut(1) found(1) by (simp add: pathText_def)
  qed
qed

lemma Name_IsValid_pathValid: "Name_IsValid n \<Longrightarrow> pathValid n"
  by (simp add: Name_IsValid_iff pathValid_def)

text \<open>
  Claim C1. For every string whose parse without defaults is a valid name, formatting
  the parsed name gives back the string, byte for byte.
\<close>

theorem ParseNameNoDefaults_roundtrip:
  assumes v: "Name_IsValid (ParseNameNoDefaults s)"
  shows "Name_String (ParseNameNoDefaults s) = s"
proof -
  let ?n = "ParseNameNoDefaults s"
  have "\<exists>s0 dg. cutLast s ''@'' = (s0, dg, dg \<noteq> []) \<and>
      s = s0 @ (if dg \<noteq> [] then ''@'' @ dg else []) \<and> RawDigest ?n = dg"
  proof (cases rule: cutLast_cases [of "CHR ''@''" s])
    case absent
    then show ?thesis by (simp add: ParseNameNoDefaults_parsePath split: prod.splits)
  next
    case (found a b)
    then have rd: "RawDigest ?n = (if b = [] then MissingPart else b)"
      by (simp add: ParseNameNoDefaults_parsePath split: prod.splits)
    have "b \<noteq> []"
    proof
      assume "b = []"
      then have "RawDigest ?n = MissingPart" using rd by simp
      then show False using v by (simp add: Name_IsValid_iff)
    qed
    then show ?thesis using found rd by simp
  qed
  then obtain s0 dg where cut0: "cutLast s ''@'' = (s0, dg, dg \<noteq> [])"
    and s: "s = s0 @ (if dg \<noteq> [] then ''@'' @ dg else [])" and rd: "RawDigest ?n = dg"
    by blast
  have parse: "?n = (case cutPromised s0 '':'' of (s1, tag, _) \<Rightarrow>
      parsePath (zeroName\<lparr>RawDigest := dg, Tag := tag\<rparr>) s1)"
    using cut0 by (simp add: ParseNameNoDefaults_parsePath)
  have z: "Host (zeroName\<lparr>RawDigest := dg, Tag := tg\<rparr>) = []"
    "Namespace (zeroName\<lparr>RawDigest := dg, Tag := tg\<rparr>) = []" for tg
    by (simp_all add: zeroName_def)
  have "pathText ?n @ (if Tag ?n \<noteq> [] then '':'' @ Tag ?n else []) = s0"
  proof (cases rule: cutPromised_cases [of "CHR '':''" s0])
    case absent
    then have eq: "?n = parsePath (zeroName\<lparr>RawDigest := dg, Tag := []\<rparr>) s0"
      using parse by simp
    have "pathText ?n = s0"
      unfolding eq using v [unfolded eq] z by (intro parsePath_text Name_IsValid_pathValid)
    moreover have "Tag ?n = []" unfolding eq by simp
    ultimately show ?thesis by simp
  next
    case (found a b)
    then have eq: "?n = parsePath (zeroName\<lparr>RawDigest := dg,
        Tag := (if b = [] then MissingPart else b)\<rparr>) (if a = [] then MissingPart else a)"
      using parse by simp
    have tag: "Tag ?n = (if b = [] then MissingPart else b)" unfolding eq by simp
    have b: "b \<noteq> []"
    proof
      assume "b = []"
      then have "Tag ?n = MissingPart" using tag by simp
      then show False using v by (simp add: Name_IsValid_iff)
    qed
    have a: "a \<noteq> []"
    proof
      assume "a = []"
      then have "Model ?n = MissingPart" unfolding eq by (simp add: parsePath_Missing)
      then show False using v by (simp add: Name_IsValid_iff)
    qed
    have eq': "?n = parsePath (zeroName\<lparr>RawDigest := dg, Tag := b\<rparr>) a"
      using eq a b by simp
    have "pathText ?n = a"
      unfolding eq' using v [unfolded eq'] z by (intro parsePath_text Name_IsValid_pathValid)
    then show ?thesis using tag b found(1) by simp
  qed
  then have "Name_String ?n = s0 @ (if dg \<noteq> [] then ''@'' @ dg else [])"
    unfolding Name_String_pathText rd by simp
  also have "\<dots> = s" by (rule s [symmetric])
  finally show ?thesis .
qed

theorem ParseNameNoDefaults_roundtrip_witness:
  "Name_IsValid (ParseNameNoDefaults ''host:https/namespace/model:tag@dd'') \<and>
   Name_String (ParseNameNoDefaults ''host:https/namespace/model:tag@dd'')
     = ''host:https/namespace/model:tag@dd''"
proof -
  have v: "Name_IsValid (ParseNameNoDefaults ''host:https/namespace/model:tag@dd'')"
    by code_simp
  show ?thesis using v ParseNameNoDefaults_roundtrip [OF v] by simp
qed

section \<open>Promised parts that are missing\<close>

lemma hasMissingPart_invalid: "hasMissingPart n \<Longrightarrow> \<not> Name_IsValid n"
  by (auto simp: hasMissingPart_def Name_IsValid_iff)

lemma hasMissingPart_Merge: "hasMissingPart n \<Longrightarrow> hasMissingPart (Merge n d)"
  by (auto simp: hasMissingPart_def Merge_def)

lemma cutLast_Missing [simp]:
  "cutLast MissingPart ''/'' = (MissingPart, [], False)"
  by (simp add: cutLast_notin)

lemma cutPromised_Missing [simp]:
  "cutPromised MissingPart ''/'' = (MissingPart, [], False)"
  by (simp add: cutPromised_def)

lemma parsePath_hasMissing:
  assumes "promisedEmpty s ''/'' \<or> (case cutPromised s ''/'' of (s2, _, promised) \<Rightarrow>
              promised \<and> promisedEmpty s2 ''/'')"
  shows "hasMissingPart (parsePath n s)"
  using assms
  by (auto simp: parsePath_def promisedEmpty_def cutPromised_def hasMissingPart_def Let_def
      split: prod.splits if_splits)


lemma missingPromised_hasMissingPart:
  assumes "missingPromised s"
  shows "hasMissingPart (ParseNameNoDefaults s)"
proof -
  obtain s0 dg p where cut0: "cutLast s ''@'' = (s0, dg, p)"
    by (cases "cutLast s ''@''") auto
  obtain s1 tg p1 where cut1: "cutPromised s0 '':'' = (s1, tg, p1)"
    by (cases "cutPromised s0 '':''") auto
  let ?n0 = "zeroName\<lparr>RawDigest := (if p \<and> dg = [] then MissingPart else dg), Tag := tg\<rparr>"
  have parse: "ParseNameNoDefaults s = parsePath ?n0 s1"
    using cut0 cut1 by (simp add: ParseNameNoDefaults_parsePath)
  consider (digest) "p \<and> dg = []" | (tag) "promisedEmpty s0 '':''"
    | (path) "promisedEmpty s1 ''/'' \<or>
        (case cutPromised s1 ''/'' of (s2, _, promised) \<Rightarrow> promised \<and> promisedEmpty s2 ''/'')"
    using assms cut0 cut1 by (auto simp: missingPromised_def)
  then show ?thesis
  proof cases
    case digest
    then have "RawDigest (ParseNameNoDefaults s) = MissingPart"
      unfolding parse by simp
    then show ?thesis by (simp add: hasMissingPart_def)
  next
    case tag
    then obtain l r where cl: "cutLast s0 '':'' = (l, r, True)" and e: "l = [] \<or> r = []"
      by (auto simp: promisedEmpty_def)
    from e show ?thesis
    proof
      assume "l = []"
      then have "s1 = MissingPart" using cl cut1 by (simp add: cutPromised_def)
      then have "Model (ParseNameNoDefaults s) = MissingPart"
        unfolding parse by (simp add: parsePath_Missing)
      then show ?thesis by (simp add: hasMissingPart_def)
    next
      assume "r = []"
      then have "tg = MissingPart" using cl cut1 by (simp add: cutPromised_def)
      then have "Tag (ParseNameNoDefaults s) = MissingPart"
        unfolding parse by simp
      then show ?thesis by (simp add: hasMissingPart_def)
    qed
  next
    case path
    then show ?thesis unfolding parse by (rule parsePath_hasMissing)
  qed
qed

text \<open>
  Claim C9, as stated: every input with a separator next to empty content parses to an
  invalid name. The digest is the exception the parser makes: in \<open>@dd\<close> the last
  \<open>@\<close> is found with nothing before it, no sentinel is put in, and the name is valid
  with and without defaults.
\<close>

theorem empty_name_before_digest_valid:
  "cutLast ''@dd'' ''@'' = ([], ''dd'', True) \<and>
   Name_IsValid (ParseNameNoDefaults ''@dd'') \<and> Name_IsValid (ParseName ''@dd'')"
  by code_simp

text \<open>
  Claim C9, amended: when the parser finds nothing after the last \<open>@\<close>, or nothing on
  one side of the colon or of a slash it cuts at, the name is invalid both without and
  with defaults, and the sentinel it puts in fails the validator for every kind.
\<close>

theorem missingPromised_invalid:
  assumes "missingPromised s"
  shows "\<not> Name_IsValid (ParseNameNoDefaults s) \<and> \<not> Name_IsValid (ParseName s) \<and>
    \<not> isValidPart kind MissingPart"
  using missingPromised_hasMissingPart [OF assms]
  by (simp add: ParseName_def hasMissingPart_invalid hasMissingPart_Merge)

theorem missingPromised_invalid_witness:
  "missingPromised ''model:'' \<and>
   \<not> Name_IsValid (ParseNameNoDefaults ''model:'') \<and> \<not> Name_IsValid (ParseName ''model:'') \<and>
   missingPromised ''/model'' \<and>
   \<not> Name_IsValid (ParseNameNoDefaults ''/model'') \<and> \<not> Name_IsValid (ParseName ''/model'') \<and>
   missingPromised ''@'' \<and>
   \<not> Name_IsValid (ParseNameNoDefaults ''@'') \<and> \<not> Name_IsValid (ParseName ''@'')"
proof -
  have m: "missingPromised ''model:''" "missingPromised ''/model''" "missingPromised ''@''"
    by code_simp+
  show ?thesis
    using m missingPromised_invalid [OF m(1)] missingPromised_invalid [OF m(2)]
      missingPromised_invalid [OF m(3)]
    by simp
qed

section \<open>The hexadecimal codec on well-formed input\<close>

lemma hexdigit_value:
  assumes "p \<in> set hextable"
  shows "reverseHexTable p \<in> {0, 1, 2, 3, 4, 5, 6, 7, 8, 9, 10, 11, 12, 13, 14, 15}"
    and "hextable ! unat (reverseHexTable p) = p"
  using assms by (auto simp: hextable_def reverseHexTable_def less_eq_char_def)

lemma nibbles:
  fixes a b :: byte
  assumes "a \<in> {0, 1, 2, 3, 4, 5, 6, 7, 8, 9, 10, 11, 12, 13, 14, 15}"
    and "b \<in> {0, 1, 2, 3, 4, 5, 6, 7, 8, 9, 10, 11, 12, 13, 14, 15}"
  shows "drop_bit 4 (push_bit 4 a OR b) = a" and "(push_bit 4 a OR b) AND 0x0f = b"
    and "\<not> a > 0x0f"
  using assms by auto

lemma EncodeToString_length [simp]: "length (EncodeToString vs) = 2 * length vs"
  by (induction vs) simp_all

lemma EncodeToString_nth:
  "k < length vs \<Longrightarrow>
     EncodeToString vs ! (2 * k) = hextable ! unat (drop_bit 4 (vs ! k)) \<and>
     EncodeToString vs ! Suc (2 * k) = hextable ! unat (vs ! k AND 0x0f)"
proof (induction vs arbitrary: k)
  case Nil
  then show ?case by simp
next
  case (Cons v vs)
  then show ?case by (cases k) simp_all
qed

lemma Decode_from_hex:
  assumes "even (length src)" "2 * i \<le> length src" "length src \<le> 2 * length dst"
    and "\<forall>k < length src. src ! k \<in> set hextable"
  shows "\<exists>dst'. Decode_from dst src i (Suc (2 * i)) = Inr (dst', length src div 2, None) \<and>
      length dst' = length dst \<and> (\<forall>k < i. dst' ! k = dst ! k) \<and>
      (\<forall>k. i \<le> k \<and> 2 * k < length src \<longrightarrow> dst' ! k = hexByte src k)"
  using assms
proof (induction "length src - 2 * i" arbitrary: i dst rule: less_induct)
  case less
  show ?case
  proof (cases "Suc (2 * i) < length src")
    case False
    then have "2 * i = length src" using less.prems(1,2) by presburger
    then show ?thesis
      using less.prems(1) by (subst Decode_from.simps) auto
  next
    case True
    let ?v = "hexByte src i"
    let ?dst = "dst[i := ?v]"
    have p: "src ! (2 * i) \<in> set hextable" and q: "src ! Suc (2 * i) \<in> set hextable"
      using True less.prems(4) by auto
    have a: "\<not> reverseHexTable (src ! (2 * i)) > 0x0f"
      and b: "\<not> reverseHexTable (src ! Suc (2 * i)) > 0x0f"
      using hexdigit_value(1) [OF p] hexdigit_value(1) [OF q] nibbles(3) by blast+
    have i: "i < length dst" using True less.prems(3) by arith
    have step: "Decode_from dst src i (Suc (2 * i)) = Decode_from ?dst src (Suc i) (Suc (2 * Suc i))"
      using True a b i by (subst Decode_from.simps) (simp add: Let_def hexByte_def)
    have "\<exists>dst'. Decode_from ?dst src (Suc i) (Suc (2 * Suc i)) = Inr (dst', length src div 2, None) \<and>
        length dst' = length ?dst \<and> (\<forall>k < Suc i. dst' ! k = ?dst ! k) \<and>
        (\<forall>k. Suc i \<le> k \<and> 2 * k < length src \<longrightarrow> dst' ! k = hexByte src k)"
      using True less.prems by (intro less.hyps) auto
    then obtain dst' where d: "Decode_from ?dst src (Suc i) (Suc (2 * Suc i)) = Inr (dst', length src div 2, None)"
      "length dst' = length dst" "\<forall>k < Suc i. dst' ! k = ?dst ! k"
      "\<forall>k. Suc i \<le> k \<and> 2 * k < length src \<longrightarrow> dst' ! k = hexByte src k"
      by auto
    have old: "\<forall>k < i. dst' ! k = dst ! k" using d(3) by auto
    have here: "dst' ! i = ?v" using d(3) i by auto
    have new: "\<forall>k. i \<le> k \<and> 2 * k < length src \<longrightarrow> dst' ! k = hexByte src k"
      using d(4) here by (metis Suc_leI le_neq_implies_less)
    show ?thesis using step d(1,2) old new by auto
  qed
qed

lemma Decode_Encode:
  assumes "even (length src)" "length src \<le> 2 * length dst"
    and "\<forall>k < length src. src ! k \<in> set hextable"
  shows "\<exists>dst'. Decode dst src = Inr (dst', length src div 2, None) \<and> length dst' = length dst \<and>
      take (length src) (EncodeToString dst') = src"
proof -
  obtain dst' where d: "Decode dst src = Inr (dst', length src div 2, None)"
    "length dst' = length dst" "\<forall>k. 2 * k < length src \<longrightarrow> dst' ! k = hexByte src k"
    using Decode_from_hex [of src 0 dst] assms by (auto simp: Decode_def)
  have "take (length src) (EncodeToString dst') ! m = src ! m" if m: "m < length src" for m
  proof -
    define k where "k = m div 2"
    have k: "2 * k < length src" "k < length dst'" using m assms(1,2) d(2) by (auto simp: k_def)
    have k1: "Suc (2 * k) < length src" using k(1) assms(1) by presburger
    have v: "dst' ! k = hexByte src k" using d(3) k by simp
    have p: "src ! (2 * k) \<in> set hextable" and q: "src ! Suc (2 * k) \<in> set hextable"
      using assms(3) k(1) k1 by auto
    note pv = hexdigit_value [OF p] and qv = hexdigit_value [OF q]
    have lo: "hextable ! unat (drop_bit 4 (dst' ! k)) = src ! (2 * k)"
      unfolding v hexByte_def nibbles(1) [OF pv(1) qv(1)] by (rule pv(2))
    have hi: "hextable ! unat (dst' ! k AND 0x0f) = src ! Suc (2 * k)"
      unfolding v hexByte_def nibbles(2) [OF pv(1) qv(1)] by (rule qv(2))
    have "m = 2 * k \<or> m = Suc (2 * k)" unfolding k_def by presburger
    then show ?thesis
      using EncodeToString_nth [OF k(2)] lo hi m by auto
  qed
  note nth = this
  have len: "length (take (length src) (EncodeToString dst')) = length src"
    using assms(2) d(2) by simp
  have "take (length src) (EncodeToString dst') = src"
    by (rule nth_equalityI [OF len]) (use nth len in metis)
  then show ?thesis using d(1,2) by blast
qed

lemma ParseDigest_cut:
  assumes "cutLast s '':'' = (''sha256'', h, True) \<or>
      (cutLast s '':'' = (s, [], False) \<and> cutLast s ''-'' = (''sha256'', h, True))"
    and "Decode (replicate 32 0) h = Inr (bs, 32, None)"
  shows "ParseDigest s = Inr \<lparr>Type = DigestTypeSHA256, Hash = bs\<rparr>"
  using assms by (auto simp: ParseDigest_def zeroDigest_def)

section \<open>Digests: canonical form and validity\<close>

text \<open>
  Claim C6. For every string \<open>h\<close> of 64 lowercase hexadecimal digits, \<open>sha256:h\<close> and
  \<open>sha256-h\<close> parse to the same digest, and that digest formats to \<open>sha256-h\<close>.
\<close>

theorem ParseDigest_canonical:
  assumes len: "length h = 64" and hex: "set h \<subseteq> set ''0123456789abcdef''"
  shows "\<exists>d. ParseDigest (''sha256:'' @ h) = Inr d \<and> ParseDigest (''sha256-'' @ h) = Inr d \<and>
      Digest_String d = ''sha256-'' @ h"
proof -
  have nocolon: "CHR '':'' \<notin> set h" and nodash: "CHR ''-'' \<notin> set h"
    using hex by auto
  have cut1: "cutLast (''sha256:'' @ h) '':'' = (''sha256'', h, True)"
    using cutLast_last [OF nocolon, of "''sha256''"] by simp
  have cut2: "cutLast (''sha256-'' @ h) '':'' = (''sha256-'' @ h, [], False)"
    using nocolon by (intro cutLast_notin) simp
  have cut3: "cutLast (''sha256-'' @ h) ''-'' = (''sha256'', h, True)"
    using cutLast_last [OF nodash, of "''sha256''"] by simp
  have "\<forall>k < length h. h ! k \<in> set hextable"
    using hex by (auto simp: hextable_def subset_iff)
  then obtain bs where dec: "Decode (replicate 32 0) h = Inr (bs, 32, None)"
    and bs: "length bs = 32" and enc: "take 64 (EncodeToString bs) = h"
    using Decode_Encode [of h "replicate 32 0"] len by auto
  have enc': "EncodeToString bs = h" using enc bs by simp
  let ?d = "\<lparr>Type = DigestTypeSHA256, Hash = bs\<rparr>"
  have "ParseDigest (''sha256:'' @ h) = Inr ?d"
    using cut1 dec by (intro ParseDigest_cut) auto
  moreover have "ParseDigest (''sha256-'' @ h) = Inr ?d"
    using cut2 cut3 dec by (intro ParseDigest_cut) auto
  moreover have "Digest_String ?d = ''sha256-'' @ h"
    by (simp add: Digest_String_def DigestType_String_def enc')
  ultimately show ?thesis by blast
qed

theorem ParseDigest_canonical_witness:
  "ParseDigest ''sha256:abcdef0123456789abcdef0123456789abcdef0123456789abcdef0123456789'' =
     ParseDigest ''sha256-abcdef0123456789abcdef0123456789abcdef0123456789abcdef0123456789'' \<and>
   (\<exists>d. ParseDigest ''sha256:abcdef0123456789abcdef0123456789abcdef0123456789abcdef0123456789'' = Inr d \<and>
     Digest_String d = ''sha256-abcdef0123456789abcdef0123456789abcdef0123456789abcdef0123456789'')"
proof -
  let ?h = "''abcdef0123456789abcdef0123456789abcdef0123456789abcdef0123456789''"
  have len: "length ?h = 64" by simp
  have hex: "set ?h \<subseteq> set ''0123456789abcdef''" by simp
  show ?thesis using ParseDigest_canonical [OF len hex] by auto
qed

text \<open>
  Claim C7. A digest is valid exactly when its type is SHA-256 and its hash is not the
  all-zero 32 bytes. The hash of 64 zero digits decodes without error, to 32 bytes, and
  \<open>ParseDigest\<close> returns it with the SHA-256 type; that digest is not valid.
\<close>

theorem Digest_IsValid_spec:
  fixes d :: Digest
  shows "(Digest_IsValid d \<longleftrightarrow> Type d = DigestTypeSHA256 \<and> Hash d \<noteq> replicate 32 0) \<and>
    Decode (replicate 32 0) (replicate 64 CHR ''0'') = Inr (replicate 32 0, 32, None) \<and>
    ParseDigest (''sha256:'' @ replicate 64 CHR ''0'') =
      Inr \<lparr>Type = DigestTypeSHA256, Hash = replicate 32 0\<rparr> \<and>
    \<not> Digest_IsValid \<lparr>Type = DigestTypeSHA256, Hash = replicate 32 0\<rparr>"
proof (intro conjI)
  show "Digest_IsValid d \<longleftrightarrow> Type d = DigestTypeSHA256 \<and> Hash d \<noteq> replicate 32 0"
    by (simp add: Digest_IsValid_def)
  show "Decode (replicate 32 0) (replicate 64 CHR ''0'') = Inr (replicate 32 0, 32, None)"
    by code_simp
  show "ParseDigest (''sha256:'' @ replicate 64 CHR ''0'') =
      Inr \<lparr>Type = DigestTypeSHA256, Hash = replicate 32 0\<rparr>"
    by code_simp
  show "\<not> Digest_IsValid \<lparr>Type = DigestTypeSHA256, Hash = replicate 32 0\<rparr>"
    by (simp add: Digest_IsValid_def)
qed

theorem Digest_IsValid_spec_witness:
  "Digest_IsValid \<lparr>Type = DigestTypeSHA256, Hash = 1 # replicate 31 0\<rparr> \<and>
   \<not> Digest_IsValid \<lparr>Type = 0, Hash = 1 # replicate 31 0\<rparr> \<and>
   \<not> Digest_IsValid \<lparr>Type = DigestTypeSHA256, Hash = replicate 32 0\<rparr>"
  using Digest_IsValid_spec [of "\<lparr>Type = DigestTypeSHA256, Hash = 1 # replicate 31 0\<rparr>"]
    Digest_IsValid_spec [of "\<lparr>Type = 0, Hash = 1 # replicate 31 0\<rparr>"]
  by (simp add: DigestTypeSHA256_def numeral_eq_Suc)

end
